theory Spec2Isabelle
  imports Main "HOL-Library.AList"
begin

section \<open>Go values, maps and the store\<close>

text \<open>
  A Go \<^verbatim>\<open>interface{}\<close> is either nil or holds a dynamic value. Strings are kept as a
  case of their own because key paths are stored as strings; every other dynamic value is
  left abstract in the type parameter.
\<close>

datatype 'a iface = NilValue | Str string | Dyn 'a

text \<open>
  The contents of a \<^verbatim>\<open>map[string]interface{}\<close>: its entries, listed in the order in which
  \<^verbatim>\<open>range\<close> visits them. Go fixes no order, so every list of the same entries is a possible
  reading of the same map; a Go map never holds a key twice.
\<close>

type_synonym 'a gomap = "(string \<times> 'a iface) list"

text \<open>
  Maps are reference values: a map variable is nil or points at a map object. The store
  lists the map objects, and a reference is the position of its object.
\<close>

datatype mapref = NilMap | MapAt nat

type_synonym 'a store = "'a gomap list"

definition deref :: "'a store \<Rightarrow> mapref \<Rightarrow> 'a gomap" where
  \<comment> \<open>reading through a nil map sees no entries\<close>
  "deref h r = (case r of NilMap \<Rightarrow> [] | MapAt p \<Rightarrow> if p < length h then h ! p else [])"

definition map_index :: "'a gomap \<Rightarrow> string \<Rightarrow> 'a iface" where
  \<comment> \<open>\<^verbatim>\<open>m[k]\<close>: the zero value nil when the key is missing\<close>
  "map_index m k = (case map_of m k of None \<Rightarrow> NilValue | Some v \<Rightarrow> v)"

definition wf_map :: "'a gomap \<Rightarrow> bool" where
  "wf_map m = distinct (map fst m)"

section \<open>AuthData\<close>

record AuthData =
  data :: mapref
  keys :: "string list list"

definition NewAuthData :: "mapref \<Rightarrow> string list list \<Rightarrow> AuthData" where
  "NewAuthData d authRecordKeys = \<lparr>data = d, keys = authRecordKeys\<rparr>"

definition isFieldEmpty :: "'a store \<Rightarrow> AuthData \<Rightarrow> string \<Rightarrow> bool" where
  "isFieldEmpty h a key = (map_index (deref h (data a)) key = NilValue)"

subsection \<open>usingKeys\<close>

definition count_fields :: "'a store \<Rightarrow> AuthData \<Rightarrow> string list \<Rightarrow> nat" where
  \<comment> \<open>the two inner loops of \<^verbatim>\<open>usingKeys\<close>: over the group, then over the data keys\<close>
  "count_fields h a ks =
     fold (\<lambda>k count.
             fold (\<lambda>dk count. if k = dk \<and> \<not> isFieldEmpty h a dk then count + 1 else count)
                  (map fst (deref h (data a))) count)
          ks 0"

fun usingKeys_from :: "'a store \<Rightarrow> AuthData \<Rightarrow> string list list \<Rightarrow> string list" where
  "usingKeys_from h a [] = []"
| "usingKeys_from h a (ks # rest) =
     (if length ks = count_fields h a ks then ks else usingKeys_from h a rest)"

definition usingKeys :: "'a store \<Rightarrow> AuthData \<Rightarrow> string list" where
  "usingKeys h a = usingKeys_from h a (keys a)"

text \<open>
  The specification's notion of a satisfied group: every field of the group is present in
  the data with a non-null value.
\<close>

definition satisfied :: "'a gomap \<Rightarrow> string list \<Rightarrow> bool" where
  "satisfied D g =
     list_all (\<lambda>k. case map_of D k of None \<Rightarrow> False | Some v \<Rightarrow> v \<noteq> NilValue) g"

subsection \<open>allKeys, IsValid, IsEmpty\<close>

definition allKeys :: "AuthData \<Rightarrow> string list" where
  \<comment> \<open>\<^verbatim>\<open>keyMap\<close> is a local map; its keys are then appended one by one\<close>
  "allKeys a =
     (let keyMap = fold (\<lambda>ks keyMap. fold (\<lambda>key keyMap. AList.update key True keyMap) ks keyMap)
                        (keys a) []
      in fold (\<lambda>k ks. ks @ [k]) (map fst keyMap) [])"

fun found_in :: "string \<Rightarrow> string list \<Rightarrow> bool" where
  \<comment> \<open>the search loop of \<^verbatim>\<open>IsValid\<close>, left at the first hit\<close>
  "found_in dk [] = False"
| "found_in dk (k # rest) = (if dk = k then True else found_in dk rest)"

fun IsValid_from :: "'a store \<Rightarrow> AuthData \<Rightarrow> string list \<Rightarrow> bool" where
  "IsValid_from h a [] = (length (usingKeys h a) > 0)"
| "IsValid_from h a (dk # rest) =
     (if \<not> found_in dk (allKeys a) then False else IsValid_from h a rest)"

definition IsValid :: "'a store \<Rightarrow> AuthData \<Rightarrow> bool" where
  "IsValid h a = IsValid_from h a (map fst (deref h (data a)))"

fun IsEmpty_from :: "'a store \<Rightarrow> AuthData \<Rightarrow> string list \<Rightarrow> bool" where
  "IsEmpty_from h a [] = True"
| "IsEmpty_from h a (k # rest) =
     (if \<not> isFieldEmpty h a k then False else IsEmpty_from h a rest)"

definition IsEmpty :: "'a store \<Rightarrow> AuthData \<Rightarrow> bool" where
  "IsEmpty h a =
     (if length (deref h (data a)) = 0 then True
      else IsEmpty_from h a (map fst (deref h (data a))))"

subsection \<open>Predicates\<close>

text \<open>
  Modelled from the spec: the declarations of \<^verbatim>\<open>Predicate\<close>, \<^verbatim>\<open>Expression\<close>, the operators
  and the expression types are not among the source files. An expression is a tagged value
  (a key path or a literal); a predicate is an operator over an ordered sequence of
  children, each an expression or a predicate.
\<close>

datatype operator = Equal | And | Or

datatype expression_type = KeyPath | Literal

datatype 'a Expression = Expression (Type: expression_type) (Value: "'a iface")

datatype 'a Predicate = Predicate (Operator: operator) (Children: "'a child list")
  and 'a child = ExpressionChild "'a Expression" | PredicateChild "'a Predicate"

definition appendEqualPredicateForKey ::
  "'a store \<Rightarrow> AuthData \<Rightarrow> 'a child list \<Rightarrow> string \<Rightarrow> 'a child list" where
  "appendEqualPredicateForKey h a predicates key =
     (if map_index (deref h (data a)) key = NilValue then predicates
      else predicates @
             [PredicateChild (Predicate Equal
                [ExpressionChild (Expression KeyPath (Str key)),
                 ExpressionChild (Expression Literal (map_index (deref h (data a)) key))])])"

definition MakeEqualPredicate :: "'a store \<Rightarrow> AuthData \<Rightarrow> 'a Predicate" where
  "MakeEqualPredicate h a =
     Predicate And
       (fold (\<lambda>k predicates. appendEqualPredicateForKey h a predicates k) (usingKeys h a) [])"

definition equal_term :: "'a gomap \<Rightarrow> string \<Rightarrow> 'a child" where
  \<comment> \<open>the specification's \<open>Equal(KeyPath(k), Literal(D[k]))\<close>\<close>
  "equal_term D k =
     PredicateChild (Predicate Equal
       [ExpressionChild (Expression KeyPath (Str k)),
        ExpressionChild (Expression Literal (map_index D k))])"

subsection \<open>Writing to maps: GetData and UpdateFromRecordData\<close>

definition make_map :: "'a store \<Rightarrow> 'a store \<times> mapref" where
  \<comment> \<open>a map literal or \<^verbatim>\<open>make\<close>: a new, empty map object\<close>
  "make_map h = (h @ [[]], MapAt (length h))"

definition map_assign :: "'a store \<Rightarrow> mapref \<Rightarrow> string \<Rightarrow> 'a iface \<Rightarrow> string + 'a store" where
  \<comment> \<open>\<^verbatim>\<open>m[k] = v\<close>; the Go runtime panics when \<^verbatim>\<open>m\<close> is nil\<close>
  "map_assign h r k v =
     (case r of
        NilMap \<Rightarrow> Inl ''assignment to entry in nil map''
      | MapAt p \<Rightarrow> Inr (h[p := AList.update k v (h ! p)]))"

definition map_delete :: "'a store \<Rightarrow> mapref \<Rightarrow> string \<Rightarrow> 'a store" where
  \<comment> \<open>\<^verbatim>\<open>delete(m, k)\<close>; a no-op on a nil map\<close>
  "map_delete h r k =
     (case r of NilMap \<Rightarrow> h | MapAt p \<Rightarrow> h[p := AList.delete k (h ! p)])"

fun GetData_copy :: "'a store \<Rightarrow> mapref \<Rightarrow> 'a gomap \<Rightarrow> string + 'a store" where
  \<comment> \<open>the loop of \<^verbatim>\<open>GetData\<close> over the entries still to be visited\<close>
  "GetData_copy h c [] = Inr h"
| "GetData_copy h c ((k, v) # rest) =
     (case map_assign h c k v of Inl e \<Rightarrow> Inl e | Inr h' \<Rightarrow> GetData_copy h' c rest)"

definition GetData :: "'a store \<Rightarrow> AuthData \<Rightarrow> string + ('a store \<times> mapref)" where
  "GetData h a =
     (let (h1, c) = make_map h
      in case GetData_copy h1 c (deref h (data a)) of
           Inl e \<Rightarrow> Inl e
         | Inr h2 \<Rightarrow> Inr (h2, c))"

fun UpdateFromRecordData_loop ::
  "'a store \<Rightarrow> AuthData \<Rightarrow> mapref \<Rightarrow> string list \<Rightarrow> string + 'a store" where
  "UpdateFromRecordData_loop h a d [] = Inr h"
| "UpdateFromRecordData_loop h a d (k # rest) =
     (case map_assign h (data a) k (map_index (deref h d) k) of
        Inl e \<Rightarrow> Inl e
      | Inr h' \<Rightarrow> UpdateFromRecordData_loop h' a d rest)"

definition UpdateFromRecordData :: "'a store \<Rightarrow> AuthData \<Rightarrow> mapref \<Rightarrow> string + 'a store" where
  \<comment> \<open>\<^verbatim>\<open>Data\<close> is a map as well, so the record data is passed by reference\<close>
  "UpdateFromRecordData h a d = UpdateFromRecordData_loop h a d (allKeys a)"

text \<open>What a caller can do to the entries of a map it holds.\<close>

datatype 'a mutation = Put string "'a iface" | Remove string

fun mutate :: "'a store \<Rightarrow> mapref \<Rightarrow> 'a mutation \<Rightarrow> string + 'a store" where
  "mutate h r (Put k v) = map_assign h r k v"
| "mutate h r (Remove k) = Inr (map_delete h r k)"

fun mutate_all :: "'a store \<Rightarrow> mapref \<Rightarrow> 'a mutation list \<Rightarrow> string + 'a store" where
  "mutate_all h r [] = Inr h"
| "mutate_all h r (m # ms) =
     (case mutate h r m of Inl e \<Rightarrow> Inl e | Inr h' \<Rightarrow> mutate_all h' r ms)"

definition valid_ref :: "'a store \<Rightarrow> mapref \<Rightarrow> bool" where
  \<comment> \<open>a reference is nil or points at an object of the store\<close>
  "valid_ref h r = (case r of NilMap \<Rightarrow> True | MapAt p \<Rightarrow> p < length h)"

section \<open>AuthInfo\<close>

type_synonym bytes = "char list"

type_synonym time = int

record 'a AuthInfo =
  ID :: string
  HashedPassword :: bytes
  Roles :: "string list"
  ProviderInfo :: "(string \<times> 'a gomap) list option"
  TokenValidSince :: "time option"
  LastSeenAt :: "time option"

text \<open>
  The hashing library (bcrypt) is not part of the repository and is taken as a parameter:
  its two entry points, where hashing also consumes the random salt it draws. A returned
  \<open>Inl\<close>, respectively \<open>Some\<close>, is the library's error.
\<close>

record bcrypt =
  GenerateFromPassword :: "bytes \<Rightarrow> bytes \<Rightarrow> nat \<Rightarrow> string + bytes"
  CompareHashAndPassword :: "bytes \<Rightarrow> bytes \<Rightarrow> string option"

definition DefaultCost :: nat where
  "DefaultCost = 10"

definition NewAnonymousAuthInfo :: "string \<Rightarrow> 'a AuthInfo" where
  \<comment> \<open>the argument is the identifier that \<^verbatim>\<open>uuid.New()\<close> yields\<close>
  "NewAnonymousAuthInfo uuid =
     \<lparr>ID = uuid, HashedPassword = [], Roles = [], ProviderInfo = None,
      TokenValidSince = None, LastSeenAt = None\<rparr>"

definition SetPassword ::
  "bcrypt \<Rightarrow> bytes \<Rightarrow> time \<Rightarrow> 'a AuthInfo \<Rightarrow> string \<Rightarrow> string + 'a AuthInfo" where
  \<comment> \<open>\<open>salt\<close> is the randomness the library draws, \<open>timeNow\<close> the reading of the clock\<close>
  "SetPassword lib salt timeNow info password =
     (case GenerateFromPassword lib salt password DefaultCost of
        Inl err \<Rightarrow> Inl ''authinfo: Failed to hash password''
      | Inr hashedPassword \<Rightarrow>
          Inr (info\<lparr>HashedPassword := hashedPassword, TokenValidSince := Some timeNow\<rparr>))"

definition IsSamePassword :: "bcrypt \<Rightarrow> 'a AuthInfo \<Rightarrow> string \<Rightarrow> bool" where
  "IsSamePassword lib info password =
     (CompareHashAndPassword lib (HashedPassword info) password = None)"

definition NewAuthInfo ::
  "bcrypt \<Rightarrow> bytes \<Rightarrow> time \<Rightarrow> string \<Rightarrow> string \<Rightarrow> string + 'a AuthInfo" where
  \<comment> \<open>a panic of \<^verbatim>\<open>SetPassword\<close> passes through the constructor\<close>
  "NewAuthInfo lib salt timeNow uuid password =
     SetPassword lib salt timeNow
       \<lparr>ID = uuid, HashedPassword = [], Roles = [], ProviderInfo = None,
        TokenValidSince = None, LastSeenAt = None\<rparr>
       password"


definition rejects_short_hash :: "bcrypt \<Rightarrow> bool" where
  "rejects_short_hash lib =
     (\<forall>hashed password. length hashed < 59 \<longrightarrow> CompareHashAndPassword lib hashed password \<noteq> None)"


text \<open>
  A stand-in for the library that meets both expectations, to run the definitions on:
  the hash is a 59-byte prefix, taken from the salt, followed by the password.
\<close>

definition pad59 :: "bytes \<Rightarrow> bytes" where
  "pad59 salt = take 59 (salt @ replicate 59 CHR ''.'')"

definition plain_generate :: "bytes \<Rightarrow> bytes \<Rightarrow> nat \<Rightarrow> string + bytes" where
  "plain_generate salt password cost = Inr (pad59 salt @ password)"

definition plain_compare :: "bytes \<Rightarrow> bytes \<Rightarrow> string option" where
  "plain_compare hashed password =
     (if length hashed < 59 then Some ''hashedSecret too short to be a bcrypted password''
      else if drop 59 hashed = password then None
      else Some ''hashedPassword is not the hash of the given password'')"

definition plain_lib :: bcrypt where
  "plain_lib = \<lparr>GenerateFromPassword = plain_generate, CompareHashAndPassword = plain_compare\<rparr>"

definition failing_generate :: "bytes \<Rightarrow> bytes \<Rightarrow> nat \<Rightarrow> string + bytes" where
  "failing_generate salt password cost = Inl ''crypto/bcrypt: cost outside allowed range''"

definition failing_lib :: bcrypt where
  "failing_lib = \<lparr>GenerateFromPassword = failing_generate, CompareHashAndPassword = plain_compare\<rparr>"

section \<open>The field access update handler\<close>

text \<open>
  Modelled from the spec: the record store behind the handler and the field access
  registry are not among the source files. A rule is the tuple of the specification; the
  registry's table is the list of rules the store holds; \<open>Resolve\<close> collects the rules of
  the record type and field whose role is one of the principal's roles, the owner marker
  (for an owner) or the public marker, and combines each capability by disjunction, so that
  no matching rule means that every capability is denied.
\<close>

datatype RoleOrSpecial = Role string | Owner | Public

record FieldAccessRule =
  RecordType :: string
  FieldName :: string
  UserRole :: RoleOrSpecial
  Writable :: bool
  Readable :: bool
  Comparable :: bool
  Discoverable :: bool

record Capabilities =
  readable :: bool
  writable :: bool
  comparable :: bool
  discoverable :: bool

definition rule_matches :: "string \<Rightarrow> string \<Rightarrow> string list \<Rightarrow> bool \<Rightarrow> FieldAccessRule \<Rightarrow> bool" where
  "rule_matches recordType fieldName principalRoles isOwner rule =
     (RecordType rule = recordType \<and> FieldName rule = fieldName \<and>
      (case UserRole rule of
         Role r \<Rightarrow> r \<in> set principalRoles
       | Owner \<Rightarrow> isOwner
       | Public \<Rightarrow> True))"

definition Resolve ::
  "FieldAccessRule list \<Rightarrow> string \<Rightarrow> string \<Rightarrow> string list \<Rightarrow> bool \<Rightarrow> Capabilities" where
  "Resolve table recordType fieldName principalRoles isOwner =
     (let matching = filter (rule_matches recordType fieldName principalRoles isOwner) table
      in \<lparr>readable = list_ex Readable matching, writable = list_ex Writable matching,
          comparable = list_ex Comparable matching,
          discoverable = list_ex Discoverable matching\<rparr>)"

text \<open>
  The handler as the source has it. Its three fields are injected; the record store is
  seen here as the rule table it holds. The request payload is a struct without fields, so
  decoding a request body keeps nothing of the body's \<^verbatim>\<open>access\<close> list.
\<close>

record ('tx, 'log) FieldAccessUpdateHandler =
  TxContext :: 'tx
  RecordStore :: "FieldAccessRule list"
  Logger :: 'log

datatype FieldAccessUpdateRequestPayload = FieldAccessUpdateRequestPayload

definition Validate :: "FieldAccessUpdateRequestPayload \<Rightarrow> string option" where
  "Validate s = None"

definition DecodeRequest ::
  "('tx, 'log) FieldAccessUpdateHandler \<Rightarrow> FieldAccessRule list \<Rightarrow>
   string + FieldAccessUpdateRequestPayload" where
  \<comment> \<open>the argument is the \<^verbatim>\<open>access\<close> list of a well-formed request body\<close>
  "DecodeRequest h access = Inr FieldAccessUpdateRequestPayload"

definition Handle ::
  "('tx, 'log) FieldAccessUpdateHandler \<Rightarrow> FieldAccessUpdateRequestPayload \<Rightarrow>
   ('tx, 'log) FieldAccessUpdateHandler \<times> unit option \<times> string option" where
  \<comment> \<open>the body is a bare \<^verbatim>\<open>return\<close>: both named results are nil, nothing is written\<close>
  "Handle h req = (h, None, None)"

definition update_then_resolve ::
  "('tx, 'log) FieldAccessUpdateHandler \<Rightarrow> FieldAccessRule list \<Rightarrow>
   string \<Rightarrow> string \<Rightarrow> string list \<Rightarrow> bool \<Rightarrow> string + Capabilities" where
  \<comment> \<open>a request to the update endpoint, followed by a read of the registry\<close>
  "update_then_resolve h access recordType fieldName principalRoles isOwner =
     (case DecodeRequest h access of
        Inl e \<Rightarrow> Inl e
      | Inr payload \<Rightarrow>
          (case Handle h payload of
             (h', resp, err) \<Rightarrow>
               Inr (Resolve (RecordStore h') recordType fieldName principalRoles isOwner)))"

definition johndoe_rule :: FieldAccessRule where
  \<comment> \<open>the rule of the request shown in the handler's comment\<close>
  "johndoe_rule =
     \<lparr>RecordType = ''note'', FieldName = ''content'', UserRole = Role ''_user_id:johndoe'',
      Writable = False, Readable = True, Comparable = False, Discoverable = False\<rparr>"

section \<open>Properties of usingKeys\<close>

lemma satisfied_Nil: "satisfied D []"
  by (simp add: satisfied_def)

lemma satisfied_Cons:
  "satisfied D (k # g) \<longleftrightarrow> map_index D k \<noteq> NilValue \<and> satisfied D g"
  by (auto simp: satisfied_def map_index_def split: option.splits)

lemma count_one_key:
  "distinct ds \<Longrightarrow>
   fold (\<lambda>dk c. if k = dk \<and> P dk then c + 1 else c) ds (n::nat) =
     n + (if k \<in> set ds \<and> P k then 1 else 0)"
  by (induction ds arbitrary: n) auto

lemma map_index_Nil_absent: "k \<notin> fst ` set m \<Longrightarrow> map_index m k = NilValue"
proof -
  assume "k \<notin> fst ` set m"
  then have "map_of m k = None" by (simp add: map_of_eq_None_iff)
  then show ?thesis by (simp add: map_index_def)
qed

lemma count_steps:
  "fold (\<lambda>k c. c + (if Q k then 1 else 0)) ks (n::nat) = n + length (filter Q ks)"
  by (induction ks arbitrary: n) auto

lemma count_group:
  assumes "distinct (map fst m)"
  shows "fold (\<lambda>k c. fold (\<lambda>dk c. if k = dk \<and> map_index m dk \<noteq> NilValue then c + 1 else c)
                        (map fst m) c) ks (n::nat)
         = n + length (filter (\<lambda>k. map_index m k \<noteq> NilValue) ks)"
proof -
  have inner: "fold (\<lambda>dk c. if k = dk \<and> map_index m dk \<noteq> NilValue then c + 1 else c)
                    (map fst m) c
               = c + (if map_index m k \<noteq> NilValue then 1 else 0)" for k and c :: nat
  proof -
    have "map_index m k \<noteq> NilValue \<Longrightarrow> k \<in> set (map fst m)"
      using map_index_Nil_absent [of k m] by auto
    then show ?thesis
      using count_one_key [OF assms, of k "\<lambda>dk. map_index m dk \<noteq> NilValue" c] by auto
  qed
  show ?thesis
    unfolding inner by (rule count_steps)
qed

lemma count_fields_eq:
  assumes "wf_map (deref h (data a))"
  shows "count_fields h a ks =
         length (filter (\<lambda>k. map_index (deref h (data a)) k \<noteq> NilValue) ks)"
  using count_group [of "deref h (data a)" ks 0] assms
  by (simp add: count_fields_def isFieldEmpty_def wf_map_def)

lemma satisfied_filter:
  "satisfied D g \<longleftrightarrow> length (filter (\<lambda>k. map_index D k \<noteq> NilValue) g) = length g"
proof (induction g)
  case Nil
  show ?case by (simp add: satisfied_Nil)
next
  case (Cons k g)
  have le: "length (filter (\<lambda>k. map_index D k \<noteq> NilValue) g) \<le> length g"
    by (rule length_filter_le)
  show ?case
  proof (cases "map_index D k = NilValue")
    case True
    have "length (filter (\<lambda>k. map_index D k \<noteq> NilValue) g) \<noteq> Suc (length g)"
      using le by arith
    with True show ?thesis by (simp add: satisfied_Cons)
  next
    case False
    then show ?thesis by (simp add: satisfied_Cons Cons.IH)
  qed
qed

lemma group_test:
  assumes "wf_map (deref h (data a))"
  shows "length ks = count_fields h a ks \<longleftrightarrow> satisfied (deref h (data a)) ks"
  using count_fields_eq [OF assms, of ks] by (auto simp: satisfied_filter)

lemma usingKeys_from_first:
  assumes "wf_map (deref h (data a))"
    and "\<forall>p \<in> set pre. \<not> satisfied (deref h (data a)) p"
    and "satisfied (deref h (data a)) g"
  shows "usingKeys_from h a (pre @ g # post) = g"
  using assms(2)
  by (induction pre) (simp_all add: group_test [OF assms(1)] assms(3))

lemma usingKeys_from_none:
  assumes "wf_map (deref h (data a))"
    and "\<forall>p \<in> set gs. \<not> satisfied (deref h (data a)) p"
  shows "usingKeys_from h a gs = []"
  using assms(2)
  by (induction gs) (simp_all add: group_test [OF assms(1)])

text \<open>
  C1. For a well-formed data map, \<open>usingKeys\<close> returns the first group, in declared order,
  all of whose fields are present with non-null values: a satisfied group preceded only by
  unsatisfied groups is the result, whatever follows it. When no group is satisfied the
  result is the empty sequence.
\<close>

theorem usingKeys_first_satisfied:
  assumes "wf_map (deref h (data a))"
  shows "(\<forall>pre g post.
            keys a = pre @ g # post \<and> (\<forall>p \<in> set pre. \<not> satisfied (deref h (data a)) p) \<and>
            satisfied (deref h (data a)) g \<longrightarrow> usingKeys h a = g) \<and>
         ((\<forall>g \<in> set (keys a). \<not> satisfied (deref h (data a)) g) \<longrightarrow> usingKeys h a = [])"
  using usingKeys_from_first [OF assms] usingKeys_from_none [OF assms]
  by (simp add: usingKeys_def)

theorem usingKeys_first_satisfied_witness:
  "wf_map (deref [[(''email'', Str ''a@b.c''), (''username'', NilValue :: unit iface)]] (MapAt 0)) \<and>
   \<not> satisfied [(''email'', Str ''a@b.c''), (''username'', NilValue :: unit iface)]
       [''username'', ''email''] \<and>
   satisfied [(''email'', Str ''a@b.c''), (''username'', NilValue :: unit iface)] [''email''] \<and>
   usingKeys [[(''email'', Str ''a@b.c''), (''username'', NilValue :: unit iface)]]
     \<lparr>data = MapAt 0, keys = [[''username'', ''email''], [''email''], [''username'']]\<rparr>
   = [''email'']"
proof -
  let ?h = "[[(''email'', Str ''a@b.c''), (''username'', NilValue :: unit iface)]]"
  let ?a = "\<lparr>data = MapAt 0, keys = [[''username'', ''email''], [''email''], [''username'']]\<rparr>"
  have wf: "wf_map (deref ?h (data ?a))"
    by (simp add: wf_map_def deref_def)
  note first = usingKeys_first_satisfied [OF wf, THEN conjunct1, rule_format,
      of "[[''username'', ''email'']]" "[''email'']" "[[''username'']]"]
  from first wf show ?thesis
    by (simp add: satisfied_def deref_def)
qed

section \<open>Properties of allKeys, IsValid and MakeEqualPredicate\<close>

lemma keyMap_group_keys:
  "fst ` set (fold (\<lambda>key keyMap. AList.update key True keyMap) ks m) = fst ` set m \<union> set ks"
  by (induction ks arbitrary: m) (auto simp: AList.dom_update)

lemma keyMap_keys:
  "fst ` set (fold (\<lambda>ks keyMap. fold (\<lambda>key keyMap. AList.update key True keyMap) ks keyMap) gs m)
   = fst ` set m \<union> (\<Union>g \<in> set gs. set g)"
  by (induction gs arbitrary: m) (auto simp: keyMap_group_keys)

lemma keyMap_group_distinct:
  "distinct (map fst m) \<Longrightarrow>
   distinct (map fst (fold (\<lambda>key keyMap. AList.update key True keyMap) ks m))"
  by (induction ks arbitrary: m) (auto simp: AList.distinct_update)

lemma keyMap_distinct:
  "distinct (map fst m) \<Longrightarrow>
   distinct (map fst (fold (\<lambda>ks keyMap. fold (\<lambda>key keyMap. AList.update key True keyMap) ks keyMap) gs m))"
  by (induction gs arbitrary: m) (auto simp: keyMap_group_distinct)

lemma append_each: "fold (\<lambda>k ks. ks @ [k]) xs acc = acc @ xs"
  by (induction xs arbitrary: acc) auto

lemma set_allKeys: "set (allKeys a) = (\<Union>g \<in> set (keys a). set g)"
  using keyMap_keys [of "keys a" "[]"]
  by (simp add: allKeys_def Let_def append_each)

lemma distinct_allKeys: "distinct (allKeys a)"
  using keyMap_distinct [of "[]" "keys a"]
  by (simp add: allKeys_def Let_def append_each)

lemma found_in_iff: "found_in dk ks \<longleftrightarrow> dk \<in> set ks"
  by (induction ks) auto

lemma IsValid_from_iff:
  "IsValid_from h a dks \<longleftrightarrow> (\<forall>dk \<in> set dks. dk \<in> set (allKeys a)) \<and> usingKeys h a \<noteq> []"
  by (induction dks) (auto simp: found_in_iff)

text \<open>
  C2. \<open>IsValid\<close> returns true if and only if every field name present in the data belongs
  to \<open>allKeys\<close> and \<open>usingKeys\<close> is non-empty, where \<open>allKeys\<close> holds exactly the fields
  of all groups. The data \<open>{"nickname": "x"}\<close> with the groups \<open>[["username"], ["email"]]\<close>
  is invalid.
\<close>

theorem IsValid_iff:
  "(IsValid h a \<longleftrightarrow>
      (\<forall>dk \<in> fst ` set (deref h (data a)). dk \<in> set (allKeys a)) \<and> usingKeys h a \<noteq> []) \<and>
   set (allKeys a) = (\<Union>g \<in> set (keys a). set g)"
  by (simp add: IsValid_def IsValid_from_iff set_allKeys)

theorem IsValid_iff_witness:
  "\<not> (\<forall>dk \<in> fst ` set (deref [[(''nickname'', Str ''x'' :: unit iface)]] (MapAt 0)).
         dk \<in> set (allKeys \<lparr>data = MapAt 0, keys = [[''username''], [''email'']]\<rparr>)) \<and>
   \<not> IsValid [[(''nickname'', Str ''x'' :: unit iface)]]
       \<lparr>data = MapAt 0, keys = [[''username''], [''email'']]\<rparr>"
  using IsValid_iff [of "[[(''nickname'', Str ''x'' :: unit iface)]]"
      "\<lparr>data = MapAt 0, keys = [[''username''], [''email'']]\<rparr>"]
  by (simp add: deref_def)

lemma append_terms:
  "fold (\<lambda>k predicates. appendEqualPredicateForKey h a predicates k) ks acc =
     acc @ map (equal_term (deref h (data a)))
               (filter (\<lambda>k. map_index (deref h (data a)) k \<noteq> NilValue) ks)"
  by (induction ks arbitrary: acc)
     (simp_all add: appendEqualPredicateForKey_def equal_term_def)

lemma satisfied_filter_id:
  "satisfied D g \<Longrightarrow> filter (\<lambda>k. map_index D k \<noteq> NilValue) g = g"
  by (induction g) (simp_all add: satisfied_Cons)

lemma usingKeys_from_satisfied:
  assumes "wf_map (deref h (data a))"
  shows "satisfied (deref h (data a)) (usingKeys_from h a gs)"
  by (induction gs) (simp_all add: satisfied_Nil group_test [OF assms])

text \<open>
  C3. \<open>MakeEqualPredicate\<close> returns an \<open>And\<close> predicate whose children are one
  \<open>Equal(KeyPath(k), Literal(D[k]))\<close> node per field \<open>k\<close> of the group returned by
  \<open>usingKeys\<close>, in group order, skipping fields whose value is null. For a well-formed data
  map no field of that group is null, so there is one node per field, and when no group is
  satisfied the child list is empty. For \<open>D = {"username": "alice", "email": null}\<close> and
  \<open>G = [["username"], ["email"]]\<close> the result is \<open>And(Equal(username, "alice"))\<close>.
\<close>

theorem MakeEqualPredicate_children:
  "MakeEqualPredicate h a =
     Predicate And
       (map (equal_term (deref h (data a)))
            (filter (\<lambda>k. map_index (deref h (data a)) k \<noteq> NilValue) (usingKeys h a))) \<and>
   (wf_map (deref h (data a)) \<longrightarrow>
      MakeEqualPredicate h a = Predicate And (map (equal_term (deref h (data a))) (usingKeys h a)) \<and>
      ((\<forall>g \<in> set (keys a). \<not> satisfied (deref h (data a)) g) \<longrightarrow>
         MakeEqualPredicate h a = Predicate And []))"
proof -
  have general: "MakeEqualPredicate h a =
     Predicate And
       (map (equal_term (deref h (data a)))
            (filter (\<lambda>k. map_index (deref h (data a)) k \<noteq> NilValue) (usingKeys h a)))"
    by (simp add: MakeEqualPredicate_def append_terms)
  have "MakeEqualPredicate h a = Predicate And (map (equal_term (deref h (data a))) (usingKeys h a))"
    if wf: "wf_map (deref h (data a))"
    using satisfied_filter_id [OF usingKeys_from_satisfied [OF wf, of "keys a"]]
    by (simp add: general usingKeys_def)
  moreover have "MakeEqualPredicate h a = Predicate And []"
    if wf: "wf_map (deref h (data a))" and none: "\<forall>g \<in> set (keys a). \<not> satisfied (deref h (data a)) g"
    using usingKeys_from_none [OF wf none] by (simp add: general usingKeys_def)
  ultimately show ?thesis
    using general by blast
qed

theorem MakeEqualPredicate_children_witness:
  "wf_map (deref [[(''username'', Str ''alice''), (''email'', NilValue :: unit iface)]] (MapAt 0)) \<and>
   MakeEqualPredicate [[(''username'', Str ''alice''), (''email'', NilValue :: unit iface)]]
     \<lparr>data = MapAt 0, keys = [[''username''], [''email'']]\<rparr>
   = Predicate And
       [PredicateChild (Predicate Equal
          [ExpressionChild (Expression KeyPath (Str ''username'')),
           ExpressionChild (Expression Literal (Str ''alice''))])]"
proof -
  let ?h = "[[(''username'', Str ''alice''), (''email'', NilValue :: unit iface)]]"
  let ?a = "\<lparr>data = MapAt 0, keys = [[''username''], [''email'']]\<rparr>"
  have wf: "wf_map (deref ?h (data ?a))"
    by (simp add: wf_map_def deref_def)
  have uk: "usingKeys ?h ?a = [''username'']"
    by (simp add: usingKeys_def count_fields_def isFieldEmpty_def deref_def map_index_def)
  from MakeEqualPredicate_children [of ?h ?a, THEN conjunct2, rule_format, OF wf, THEN conjunct1] wf
  show ?thesis
    by (simp add: uk equal_term_def deref_def map_index_def)
qed

text \<open>
  C10. When the declared groups contain an empty group and no group before it is satisfied,
  \<open>usingKeys\<close> returns that empty group, whatever follows it (satisfied or not);
  \<open>IsValid\<close> is then false and \<open>MakeEqualPredicate\<close> is the \<open>And\<close> over an empty
  child list, as when no group is satisfied.
\<close>

theorem empty_group_masks:
  assumes "wf_map (deref h (data a))"
    and "keys a = pre @ [] # post"
    and "\<forall>p \<in> set pre. \<not> satisfied (deref h (data a)) p"
  shows "usingKeys h a = [] \<and> \<not> IsValid h a \<and> MakeEqualPredicate h a = Predicate And []"
proof -
  have uk: "usingKeys h a = []"
    using usingKeys_from_first [OF assms(1) assms(3) satisfied_Nil, of post]
    by (simp add: usingKeys_def assms(2))
  then show ?thesis
    by (simp add: IsValid_def IsValid_from_iff MakeEqualPredicate_def)
qed

theorem empty_group_masks_witness:
  "wf_map (deref [[(''email'', Str ''a@b.c'' :: unit iface)]] (MapAt 0)) \<and>
   \<not> satisfied [(''email'', Str ''a@b.c'' :: unit iface)] [''username''] \<and>
   satisfied [(''email'', Str ''a@b.c'' :: unit iface)] [''email''] \<and>
   usingKeys [[(''email'', Str ''a@b.c'' :: unit iface)]]
     \<lparr>data = MapAt 0, keys = [[''username''], [], [''email'']]\<rparr> = [] \<and>
   \<not> IsValid [[(''email'', Str ''a@b.c'' :: unit iface)]]
     \<lparr>data = MapAt 0, keys = [[''username''], [], [''email'']]\<rparr> \<and>
   MakeEqualPredicate [[(''email'', Str ''a@b.c'' :: unit iface)]]
     \<lparr>data = MapAt 0, keys = [[''username''], [], [''email'']]\<rparr> = Predicate And []"
proof -
  let ?h = "[[(''email'', Str ''a@b.c'' :: unit iface)]]"
  let ?a = "\<lparr>data = MapAt 0, keys = [[''username''], [], [''email'']]\<rparr>"
  have wf: "wf_map (deref ?h (data ?a))"
    by (simp add: wf_map_def deref_def)
  have ks: "keys ?a = [[''username'']] @ [] # [[''email'']]"
    by simp
  have pre: "\<forall>p \<in> set [[''username'']]. \<not> satisfied (deref ?h (data ?a)) p"
    by (simp add: satisfied_def deref_def)
  from empty_group_masks [OF wf ks pre] wf pre show ?thesis
    by (simp add: satisfied_def deref_def)
qed

section \<open>Properties of GetData\<close>

lemma update_absent: "k \<notin> fst ` set m \<Longrightarrow> AList.update k v m = m @ [(k, v)]"
  by (induction m) auto

lemma copy_entries:
  "distinct (map fst (m @ es)) \<Longrightarrow>
   GetData_copy (h @ [m]) (MapAt (length h)) es = Inr (h @ [m @ es])"
proof (induction es arbitrary: m)
  case Nil
  show ?case by simp
next
  case (Cons e es)
  obtain k v where e: "e = (k, v)" by (cases e)
  from Cons.prems have absent: "k \<notin> fst ` set m" and rest: "distinct (map fst ((m @ [(k, v)]) @ es))"
    by (auto simp: e)
  show ?case
    using Cons.IH [OF rest] by (simp add: e map_assign_def update_absent [OF absent])
qed

lemma GetData_result:
  assumes "wf_map (deref h (data a))"
  shows "GetData h a = Inr (h @ [deref h (data a)], MapAt (length h))"
  using copy_entries [of "[]" "deref h (data a)" h] assms
  by (simp add: GetData_def make_map_def wf_map_def)

lemma mutate_fresh:
  "\<exists>m'. mutate (h @ [m]) (MapAt (length h)) mu = Inr (h @ [m'])"
  by (cases mu) (simp_all add: map_assign_def map_delete_def)

lemma mutate_all_fresh:
  "\<exists>m'. mutate_all (h @ [m]) (MapAt (length h)) ms = Inr (h @ [m'])"
proof (induction ms arbitrary: m)
  case Nil
  show ?case by simp
next
  case (Cons mu ms)
  obtain m1 where "mutate (h @ [m]) (MapAt (length h)) mu = Inr (h @ [m1])"
    using mutate_fresh by blast
  then show ?case
    using Cons.IH [of m1] by simp
qed

lemma deref_extended: "valid_ref h r \<Longrightarrow> deref (h @ [m]) r = deref h r"
  by (cases r) (simp_all add: deref_def valid_ref_def nth_append)

lemma count_fields_cong:
  assumes "deref h1 (data a) = deref h2 (data a)"
  shows "count_fields h1 a ks = count_fields h2 a ks"
  using assms by (simp add: count_fields_def isFieldEmpty_def)

lemma usingKeys_from_cong:
  assumes "deref h1 (data a) = deref h2 (data a)"
  shows "usingKeys_from h1 a gs = usingKeys_from h2 a gs"
  by (induction gs) (simp_all add: count_fields_cong [OF assms])

lemma usingKeys_cong:
  assumes "deref h1 (data a) = deref h2 (data a)"
  shows "usingKeys h1 a = usingKeys h2 a"
  by (simp add: usingKeys_def usingKeys_from_cong [OF assms])

lemma IsValid_cong:
  assumes "deref h1 (data a) = deref h2 (data a)"
  shows "IsValid h1 a = IsValid h2 a"
  by (simp add: IsValid_def IsValid_from_iff usingKeys_cong [OF assms] assms)

lemma IsEmpty_from_cong:
  assumes "deref h1 (data a) = deref h2 (data a)"
  shows "IsEmpty_from h1 a ks = IsEmpty_from h2 a ks"
  using assms by (induction ks) (simp_all add: isFieldEmpty_def)

lemma IsEmpty_cong:
  assumes "deref h1 (data a) = deref h2 (data a)"
  shows "IsEmpty h1 a = IsEmpty h2 a"
  by (simp add: IsEmpty_def IsEmpty_from_cong [OF assms] assms)

lemma MakeEqualPredicate_cong:
  assumes "deref h1 (data a) = deref h2 (data a)"
  shows "MakeEqualPredicate h1 a = MakeEqualPredicate h2 a"
  by (simp add: MakeEqualPredicate_def append_terms usingKeys_cong [OF assms] assms)

text \<open>
  C6. \<open>GetData\<close> returns a new map with the entries of the internal data map. Whatever
  the caller then does to the entries of the returned map (adding, overwriting, removing),
  every map that existed before the call, the internal data map among them, keeps its
  entries, and \<open>IsValid\<close>, \<open>IsEmpty\<close>, \<open>usingKeys\<close> and \<open>MakeEqualPredicate\<close> return what
  they returned before.
\<close>

theorem GetData_defensive_copy:
  assumes "valid_ref h (data a)" and "wf_map (deref h (data a))"
  shows "\<exists>h' c. GetData h a = Inr (h', c) \<and> c \<noteq> NilMap \<and> c \<noteq> data a \<and>
           map_of (deref h' c) = map_of (deref h (data a)) \<and>
           (\<forall>ms. \<exists>h''. mutate_all h' c ms = Inr h'' \<and>
                   (\<forall>r. valid_ref h r \<longrightarrow> deref h'' r = deref h r) \<and>
                   IsValid h'' a = IsValid h a \<and> IsEmpty h'' a = IsEmpty h a \<and>
                   usingKeys h'' a = usingKeys h a \<and>
                   MakeEqualPredicate h'' a = MakeEqualPredicate h a)"
proof -
  let ?D = "deref h (data a)"
  let ?c = "MapAt (length h)"
  have res: "GetData h a = Inr (h @ [?D], ?c)"
    by (rule GetData_result [OF assms(2)])
  have fresh: "?c \<noteq> NilMap \<and> ?c \<noteq> data a"
    using assms(1) by (cases "data a") (auto simp: valid_ref_def)
  have same: "map_of (deref (h @ [?D]) ?c) = map_of ?D"
    by (simp add: deref_def)
  have later: "\<exists>h''. mutate_all (h @ [?D]) ?c ms = Inr h'' \<and>
                   (\<forall>r. valid_ref h r \<longrightarrow> deref h'' r = deref h r) \<and>
                   IsValid h'' a = IsValid h a \<and> IsEmpty h'' a = IsEmpty h a \<and>
                   usingKeys h'' a = usingKeys h a \<and>
                   MakeEqualPredicate h'' a = MakeEqualPredicate h a" for ms
  proof -
    obtain m' where m': "mutate_all (h @ [?D]) ?c ms = Inr (h @ [m'])"
      using mutate_all_fresh by blast
    have frame: "\<forall>r. valid_ref h r \<longrightarrow> deref (h @ [m']) r = deref h r"
      by (simp add: deref_extended)
    then have d: "deref (h @ [m']) (data a) = deref h (data a)"
      using assms(1) by blast
    show ?thesis
      using m' frame IsValid_cong [OF d] IsEmpty_cong [OF d] usingKeys_cong [OF d]
        MakeEqualPredicate_cong [OF d]
      by blast
  qed
  show ?thesis
    using res fresh same later by blast
qed

theorem GetData_defensive_copy_witness:
  "valid_ref [[(''username'', Str ''alice'' :: unit iface)]] (MapAt 0) \<and>
   wf_map (deref [[(''username'', Str ''alice'' :: unit iface)]] (MapAt 0)) \<and>
   GetData [[(''username'', Str ''alice'' :: unit iface)]] \<lparr>data = MapAt 0, keys = [[''username'']]\<rparr>
     = Inr ([[(''username'', Str ''alice'')], [(''username'', Str ''alice'')]], MapAt 1) \<and>
   mutate_all [[(''username'', Str ''alice'' :: unit iface)], [(''username'', Str ''alice'')]] (MapAt 1)
       [Put ''username'' (Str ''mallory''), Remove ''username'', Put ''nickname'' (Str ''x'')]
     = Inr [[(''username'', Str ''alice'')], [(''nickname'', Str ''x'')]] \<and>
   IsValid [[(''username'', Str ''alice'' :: unit iface)], [(''nickname'', Str ''x'')]]
       \<lparr>data = MapAt 0, keys = [[''username'']]\<rparr>
     = IsValid [[(''username'', Str ''alice'' :: unit iface)]] \<lparr>data = MapAt 0, keys = [[''username'']]\<rparr> \<and>
   usingKeys [[(''username'', Str ''alice'' :: unit iface)], [(''nickname'', Str ''x'')]]
       \<lparr>data = MapAt 0, keys = [[''username'']]\<rparr>
     = usingKeys [[(''username'', Str ''alice'' :: unit iface)]] \<lparr>data = MapAt 0, keys = [[''username'']]\<rparr>"
proof -
  let ?h = "[[(''username'', Str ''alice'' :: unit iface)]]"
  let ?a = "\<lparr>data = MapAt 0, keys = [[''username'']]\<rparr>"
  let ?h1 = "[[(''username'', Str ''alice'' :: unit iface)], [(''username'', Str ''alice'')]]"
  let ?h2 = "[[(''username'', Str ''alice'' :: unit iface)], [(''nickname'', Str ''x'')]]"
  let ?ms = "[Put ''username'' (Str ''mallory''), Remove ''username'',
              Put ''nickname'' (Str ''x'' :: unit iface)]"
  have v: "valid_ref ?h (data ?a)"
    by (simp add: valid_ref_def)
  have wf: "wf_map (deref ?h (data ?a))"
    by (simp add: wf_map_def deref_def)
  have g: "GetData ?h ?a = Inr (?h1, MapAt 1)"
    by (simp add: GetData_def make_map_def deref_def map_assign_def)
  have m: "mutate_all ?h1 (MapAt 1) ?ms = Inr ?h2"
    by (simp add: map_assign_def map_delete_def)
  from GetData_defensive_copy [OF v wf] obtain h' c
    where 1: "GetData ?h ?a = Inr (h', c)"
      and 2: "\<forall>ms. \<exists>h''. mutate_all h' c ms = Inr h'' \<and>
                   (\<forall>r. valid_ref ?h r \<longrightarrow> deref h'' r = deref ?h r) \<and>
                   IsValid h'' ?a = IsValid ?h ?a \<and> IsEmpty h'' ?a = IsEmpty ?h ?a \<and>
                   usingKeys h'' ?a = usingKeys ?h ?a \<and>
                   MakeEqualPredicate h'' ?a = MakeEqualPredicate ?h ?a"
    by blast
  from 1 g have eq: "h' = ?h1" "c = MapAt 1"
    by simp_all
  from 2 obtain h'' where 3: "mutate_all h' c ?ms = Inr h''"
      and 4: "IsValid h'' ?a = IsValid ?h ?a" and 5: "usingKeys h'' ?a = usingKeys ?h ?a"
    by blast
  from 3 m eq have "h'' = ?h2"
    by simp
  with 4 5 g m v wf show ?thesis
    by simp
qed

section \<open>Properties of UpdateFromRecordData\<close>

lemma map_index_update:
  "map_index (AList.update k v m) k' = (if k' = k then v else map_index m k')"
  by (simp add: map_index_def AList.update_conv')

lemma deref_assigned:
  assumes "p < length h"
  shows "map_index (deref (h[p := AList.update k (map_index (deref h d) k) (h ! p)]) d) k'
         = map_index (deref h d) k'"
proof (cases d)
  case NilMap
  then show ?thesis by (simp add: deref_def)
next
  case (MapAt q)
  show ?thesis
  proof (cases "q = p")
    case True
    with MapAt assms show ?thesis
      by (simp add: deref_def map_index_update)
  next
    case False
    with MapAt show ?thesis
      by (simp add: deref_def)
  qed
qed

lemma UpdateFromRecordData_loop_result:
  assumes "data a = MapAt p"
  shows "p < length h \<Longrightarrow>
         \<exists>h'. UpdateFromRecordData_loop h a d ks = Inr h' \<and> length h' = length h \<and>
              (\<forall>q. q \<noteq> p \<longrightarrow> h' ! q = h ! q) \<and>
              (\<forall>k. map_of (h' ! p) k =
                     (if k \<in> set ks then Some (map_index (deref h d) k) else map_of (h ! p) k))"
proof (induction ks arbitrary: h)
  case Nil
  show ?case by simp
next
  case (Cons k ks)
  let ?v = "map_index (deref h d) k"
  let ?h1 = "h[p := AList.update k ?v (h ! p)]"
  have step: "map_assign h (data a) k ?v = Inr ?h1"
    by (simp add: map_assign_def assms)
  have len: "p < length ?h1"
    using Cons.prems by simp
  have same: "map_index (deref ?h1 d) k' = map_index (deref h d) k'" for k'
    by (rule deref_assigned [OF Cons.prems])
  from Cons.IH [OF len] obtain h'
    where run: "UpdateFromRecordData_loop ?h1 a d ks = Inr h'"
      and l: "length h' = length ?h1"
      and others: "\<forall>q. q \<noteq> p \<longrightarrow> h' ! q = ?h1 ! q"
      and here: "\<forall>k'. map_of (h' ! p) k' =
                   (if k' \<in> set ks then Some (map_index (deref ?h1 d) k') else map_of (?h1 ! p) k')"
    by blast
  have "UpdateFromRecordData_loop h a d (k # ks) = Inr h'"
    by (simp add: step run)
  moreover have "length h' = length h"
    using l by simp
  moreover have "\<forall>q. q \<noteq> p \<longrightarrow> h' ! q = h ! q"
    using others by simp
  moreover have "\<forall>k'. map_of (h' ! p) k' =
                   (if k' \<in> set (k # ks) then Some (map_index (deref h d) k') else map_of (h ! p) k')"
    using here Cons.prems by (simp add: same AList.update_conv')
  ultimately show ?case
    by blast
qed

lemma deref_elsewhere:
  assumes "length h' = length h" and "\<forall>q. q \<noteq> p \<longrightarrow> h' ! q = h ! q" and "r \<noteq> MapAt p"
  shows "deref h' r = deref h r"
  using assms by (cases r) (simp_all add: deref_def)

text \<open>
  C7 (as amended). For every AuthData whose data map is not nil and every record data,
  \<open>UpdateFromRecordData\<close> returns, and afterwards every field name of \<open>allKeys\<close> is present
  in the data with the value the record data yields for it (null where the record data
  has no such field), every entry whose key is not in \<open>allKeys\<close> is as before, and no other
  map has changed.
\<close>

theorem UpdateFromRecordData_overwrites:
  assumes "data a = MapAt p" and "p < length h"
  shows "\<exists>h'. UpdateFromRecordData h a d = Inr h' \<and>
              (\<forall>k \<in> set (allKeys a).
                  map_of (deref h' (data a)) k = Some (map_index (deref h d) k)) \<and>
              (\<forall>k. k \<notin> set (allKeys a) \<longrightarrow>
                  map_of (deref h' (data a)) k = map_of (deref h (data a)) k) \<and>
              (\<forall>r. r \<noteq> data a \<longrightarrow> deref h' r = deref h r)"
proof -
  from UpdateFromRecordData_loop_result [OF assms, of d "allKeys a"] obtain h'
    where run: "UpdateFromRecordData_loop h a d (allKeys a) = Inr h'"
      and l: "length h' = length h"
      and others: "\<forall>q. q \<noteq> p \<longrightarrow> h' ! q = h ! q"
      and here: "\<forall>k. map_of (h' ! p) k =
                   (if k \<in> set (allKeys a) then Some (map_index (deref h d) k)
                    else map_of (h ! p) k)"
    by blast
  have d': "deref h' (data a) = h' ! p" and d: "deref h (data a) = h ! p"
    using assms l by (simp_all add: deref_def)
  have "\<forall>r. r \<noteq> data a \<longrightarrow> deref h' r = deref h r"
    using deref_elsewhere [OF l others] assms(1) by simp
  then show ?thesis
    using run here by (simp add: UpdateFromRecordData_def d' d)
qed

theorem UpdateFromRecordData_overwrites_witness:
  "UpdateFromRecordData
     [[(''username'', Str ''alice''), (''nickname'', Str ''x'' :: unit iface)],
      [(''username'', Str ''bob'')]]
     \<lparr>data = MapAt 0, keys = [[''username''], [''email'']]\<rparr> (MapAt 1)
   = Inr [[(''username'', Str ''bob''), (''nickname'', Str ''x''), (''email'', NilValue)],
          [(''username'', Str ''bob'')]] \<and>
   map_of [(''username'', Str ''bob''), (''nickname'', Str ''x'' :: unit iface), (''email'', NilValue)]
     ''email'' = Some NilValue"
proof -
  let ?h = "[[(''username'', Str ''alice''), (''nickname'', Str ''x'' :: unit iface)],
             [(''username'', Str ''bob'')]]"
  let ?a = "\<lparr>data = MapAt 0, keys = [[''username''], [''email'']]\<rparr>"
  have p: "data ?a = MapAt 0" by simp
  have l: "0 < length ?h" by simp
  from UpdateFromRecordData_overwrites [OF p l, of "MapAt 1"] obtain h'
    where "UpdateFromRecordData ?h ?a (MapAt 1) = Inr h'"
    by blast
  moreover have "UpdateFromRecordData ?h ?a (MapAt 1)
        = Inr [[(''username'', Str ''bob''), (''nickname'', Str ''x''), (''email'', NilValue)],
               [(''username'', Str ''bob'')]]"
    by (simp add: UpdateFromRecordData_def allKeys_def map_assign_def deref_def map_index_def)
  ultimately show ?thesis
    by simp
qed

theorem UpdateFromRecordData_nil_map_counterexample:
  "UpdateFromRecordData ([] :: unit store) \<lparr>data = NilMap, keys = [[''username'']]\<rparr> NilMap
   = Inl ''assignment to entry in nil map''"
  by (simp add: UpdateFromRecordData_def allKeys_def map_assign_def deref_def map_index_def)

section \<open>Properties of AuthInfo\<close>



lemma plain_lib_rejects_short_hash: "rejects_short_hash plain_lib"
  by (simp add: rejects_short_hash_def plain_lib_def plain_compare_def)

lemma failing_lib_rejects_short_hash: "rejects_short_hash failing_lib"
  by (simp add: rejects_short_hash_def failing_lib_def plain_compare_def)




text \<open>
  C8. A principal created by the anonymous constructor has an ID and an empty hashed
  credential, and, the library rejecting whatever is too short to be a hash,
  \<open>IsSamePassword\<close> is false for every password.
\<close>

theorem anonymous_never_authenticates:
  assumes "rejects_short_hash lib"
  shows "ID (NewAnonymousAuthInfo uuid :: 'a AuthInfo) = uuid \<and>
         HashedPassword (NewAnonymousAuthInfo uuid :: 'a AuthInfo) = [] \<and>
         \<not> IsSamePassword lib (NewAnonymousAuthInfo uuid :: 'a AuthInfo) password"
  using assms
  by (simp add: NewAnonymousAuthInfo_def IsSamePassword_def rejects_short_hash_def)

theorem anonymous_never_authenticates_witness:
  "rejects_short_hash plain_lib \<and>
   \<not> IsSamePassword plain_lib (NewAnonymousAuthInfo ''u'' :: unit AuthInfo) '''' \<and>
   \<not> IsSamePassword plain_lib (NewAnonymousAuthInfo ''u'' :: unit AuthInfo) ''secret''"
  using anonymous_never_authenticates [where 'a = unit, OF plain_lib_rejects_short_hash, of "''u''" "''''"]
    anonymous_never_authenticates [where 'a = unit, OF plain_lib_rejects_short_hash, of "''u''" "''secret''"]
    plain_lib_rejects_short_hash
  by simp

text \<open>
  C9. When the hashing primitive returns an error, \<open>SetPassword\<close> panics: it does not
  return, and no record with a changed credential results. Whenever \<open>SetPassword\<close> does
  return, the stored credential is the hash the primitive produced.
\<close>

theorem SetPassword_hash_failure_panics:
  "(GenerateFromPassword lib salt password DefaultCost = Inl err \<longrightarrow>
      SetPassword lib salt timeNow info password = Inl ''authinfo: Failed to hash password'') \<and>
   (SetPassword lib salt timeNow info password = Inr info' \<longrightarrow>
      GenerateFromPassword lib salt password DefaultCost = Inr (HashedPassword info'))"
  by (auto simp: SetPassword_def split: sum.splits)

theorem SetPassword_hash_failure_panics_witness:
  "GenerateFromPassword failing_lib ''salt'' ''secret'' DefaultCost
     = Inl ''crypto/bcrypt: cost outside allowed range'' \<and>
   SetPassword failing_lib ''salt'' 100 (NewAnonymousAuthInfo ''u'' :: unit AuthInfo) ''secret''
     = Inl ''authinfo: Failed to hash password''"
proof -
  have gen: "GenerateFromPassword failing_lib ''salt'' ''secret'' DefaultCost
             = Inl ''crypto/bcrypt: cost outside allowed range''"
    by (simp add: failing_lib_def failing_generate_def)
  from SetPassword_hash_failure_panics
         [of failing_lib "''salt''" "''secret''" "''crypto/bcrypt: cost outside allowed range''"
             100 "NewAnonymousAuthInfo ''u'' :: unit AuthInfo", THEN conjunct1, rule_format, OF gen]
    gen
  show ?thesis
    by simp
qed

section \<open>The update handler and the registry\<close>

text \<open>
  C5. The handler's \<open>Handle\<close> returns without writing: after a request to the update
  endpoint the registry resolves exactly as before, whatever rule table the request
  carried. With an empty table and the request of the handler's own comment, the field
  \<open>content\<close> of \<open>note\<close> stays unreadable for the role \<open>_user_id:johndoe\<close>, although the
  submitted rule makes it readable.
\<close>

theorem update_handler_keeps_table:
  "Handle h req = (h, None, None) \<and>
   update_then_resolve h access recordType fieldName principalRoles isOwner
     = Inr (Resolve (RecordStore h) recordType fieldName principalRoles isOwner) \<and>
   update_then_resolve \<lparr>TxContext = (), RecordStore = [], Logger = ()\<rparr> [johndoe_rule]
       ''note'' ''content'' [''_user_id:johndoe''] False
     = Inr \<lparr>readable = False, writable = False, comparable = False, discoverable = False\<rparr> \<and>
   Resolve [johndoe_rule] ''note'' ''content'' [''_user_id:johndoe''] False
     = \<lparr>readable = True, writable = False, comparable = False, discoverable = False\<rparr>"
  by (simp add: Handle_def update_then_resolve_def DecodeRequest_def Resolve_def
      rule_matches_def johndoe_rule_def)

end
